theory Spec2Isabelle
  imports Complex_Main "HOL-Library.Sublist" "HOL-Library.Monad_Syntax"
begin

section \<open>Story ranking of the insights panel\<close>

text \<open>
  A shallow embedding of \<^verbatim>\<open>getImportanceScore\<close> and \<^verbatim>\<open>selectTopStories\<close> of
  \<^verbatim>\<open>src/components/InsightsPanel.ts\<close>.

  Conventions of the embedding:
  \<^item> a JavaScript \<^verbatim>\<open>number\<close> that holds a score is a \<open>real\<close>: the arithmetic of the
    source is read exactly, without the rounding of IEEE doubles;
  \<^item> a time stamp (\<^verbatim>\<open>Date.now()\<close>, \<^verbatim>\<open>firstSeen.getTime()\<close>) is an \<open>int\<close>, the
    milliseconds since the epoch;
  \<^item> \<^verbatim>\<open>getImportanceScore\<close> reads \<^verbatim>\<open>Date.now()\<close> once, and the reading is its input
    \<open>now\<close>; \<^verbatim>\<open>selectTopStories\<close> calls \<^verbatim>\<open>getImportanceScore\<close> once for each candidate,
    and its input \<open>clock\<close> gives the reading \<open>clock i\<close> of the call number \<open>i\<close>, counted
    from 0, so that the clock may advance while the candidates are scored;
  \<^item> a string is a \<open>string\<close> of bytes, and \<^verbatim>\<open>toLowerCase\<close> acts on the letters A to Z:
    the embedding follows JavaScript on titles in ASCII, and not on a title with a letter
    outside ASCII whose lower case is an ASCII letter (the Kelvin sign, whose lower case is
    \<open>k\<close>).
\<close>

subsection \<open>Data model\<close>

text \<open>
  Modelled from the spec: the type \<^verbatim>\<open>ClusteredEvent\<close> is imported from \<^verbatim>\<open>@/types\<close>, whose
  declaration is not part of the sources at hand. The spec gives an event cluster a primary
  title (text), a primary source (identifier string), a source count (integer, at least 1),
  a first-seen time stamp, an optional velocity info with a level among normal, elevated,
  spike, viral, a trend and the sources per hour, and an alert flag.
\<close>

datatype VelocityLevel = Normal | Elevated | Spike | Viral

record VelocityMetrics =
  level :: VelocityLevel
  trend :: string
  sourcesPerHour :: real

record ClusteredEvent =
  primaryTitle :: string
  primarySource :: string
  sourceCount :: nat
  firstSeen :: int
  velocity :: "VelocityMetrics option"
  isAlert :: bool

subsection \<open>The string operations the scoring uses\<close>

definition lowerChar :: "char \<Rightarrow> char" where
  "lowerChar c =
     (let n = (of_char c :: nat) in if 65 \<le> n \<and> n \<le> 90 then char_of (n + 32) else c)"

definition toLowerCase :: "string \<Rightarrow> string" where
  "toLowerCase s = map lowerChar s"

fun startsWith :: "string \<Rightarrow> string \<Rightarrow> bool" where
  "startsWith s [] = True"
| "startsWith [] (k # ks) = False"
| "startsWith (c # cs) (k # ks) = (c = k \<and> startsWith cs ks)"

text \<open>\<^verbatim>\<open>s.includes(kw)\<close>: \<open>kw\<close> occurs in \<open>s\<close> at some position.\<close>

fun includes_str :: "string \<Rightarrow> string \<Rightarrow> bool" where
  "includes_str [] kw = startsWith [] kw"
| "includes_str (c # cs) kw = (startsWith (c # cs) kw \<or> includes_str cs kw)"

subsection \<open>getImportanceScore\<close>

definition CRITICAL_KEYWORDS :: "string list" where
  "CRITICAL_KEYWORDS =
     [''war'', ''armada'', ''military'', ''attack'', ''invasion'', ''strike'', ''troops'',
      ''missile'',
      ''nuclear'', ''bomb'', ''airstrike'', ''artillery'', ''combat'', ''offensive'',
      ''deployed'',
      ''crisis'', ''emergency'', ''catastrophe'', ''disaster'', ''collapse'', ''martial law'',
      ''iran'', ''russia'', ''china'', ''taiwan'', ''ukraine'', ''north korea'', ''israel'',
      ''gaza'',
      ''summit'', ''sanctions'', ''ultimatum'', ''threat'', ''retaliation'', ''escalation'']"

text \<open>The table \<^verbatim>\<open>velMultiplier\<close>, a record from level to factor.\<close>

definition velMultiplier :: "(VelocityLevel \<times> real) list" where
  "velMultiplier = [(Viral, 3), (Spike, 5 / 2), (Elevated, 3 / 2), (Normal, 1)]"

text \<open>
  The body of \<^verbatim>\<open>getImportanceScore\<close>, one binding for each assignment of the source to
  \<^verbatim>\<open>score\<close>. \<^verbatim>\<open>cluster.velocity?.level ?? 'normal'\<close> is the case on the optional velocity,
  and the \<^verbatim>\<open>?? 1\<close> after the table lookup is the case on the lookup.
\<close>

definition getImportanceScore :: "int \<Rightarrow> ClusteredEvent \<Rightarrow> real" where
  "getImportanceScore now cluster =
     (let score0 = (0 :: real);
          titleLower = toLowerCase (primaryTitle cluster);
          score1 = score0 + real (sourceCount cluster) * 15;
          keywordMatches = filter (\<lambda>kw. includes_str titleLower kw) CRITICAL_KEYWORDS;
          score2 = (if length keywordMatches > 0
                    then score1 + (40 + real (length keywordMatches) * 10) else score1);
          score3 = score2 *
            (case map_of velMultiplier
                    (case velocity cluster of None \<Rightarrow> Normal | Some v \<Rightarrow> level v) of
               None \<Rightarrow> 1
             | Some m \<Rightarrow> m);
          score4 = (if isAlert cluster then score3 + 50 else score3);
          ageMs = now - firstSeen cluster;
          ageHours = real_of_int ageMs / 3600000;
          recencyMultiplier = max (1 / 2) (1 - ageHours / 12)
      in score4 * recencyMultiplier)"

subsection \<open>selectTopStories\<close>

text \<open>An element of the array \<^verbatim>\<open>scored\<close>: a cluster with the score computed for it.\<close>

record ScoredCluster =
  cluster :: ClusteredEvent
  score :: real

definition MAX_PER_SOURCE :: nat where
  "MAX_PER_SOURCE = 3"

text \<open>
  The \<^verbatim>\<open>for\<close> loop over \<^verbatim>\<open>scored\<close>, with the two variables it updates: the array
  \<^verbatim>\<open>selected\<close> (\<^verbatim>\<open>push\<close> appends) and the map \<^verbatim>\<open>sourceCount\<close> from primary source to
  the number of selected clusters with it, here \<open>counts\<close>. \<^verbatim>\<open>sourceCount.get(source) || 0\<close>
  is 0 for a source that has no entry. The test for \<^verbatim>\<open>break\<close> comes last in the body, after
  the candidate has been admitted or skipped.
\<close>

fun selectLoop ::
  "int \<Rightarrow> ScoredCluster list \<Rightarrow> ClusteredEvent list \<Rightarrow> (string \<rightharpoonup> nat) \<Rightarrow> ClusteredEvent list"
where
  "selectLoop maxCount [] selected counts = selected"
| "selectLoop maxCount (sc # rest) selected counts =
     (let source = primarySource (cluster sc);
          count = (case counts source of None \<Rightarrow> 0 | Some n \<Rightarrow> n);
          selected' = (if count < MAX_PER_SOURCE then selected @ [cluster sc] else selected);
          counts' = (if count < MAX_PER_SOURCE then counts(source \<mapsto> count + 1) else counts)
      in if maxCount \<le> int (length selected') then selected'
         else selectLoop maxCount rest selected' counts')"

text \<open>
  The filter of \<^verbatim>\<open>selectTopStories\<close>: at least two sources, or an alert, or a velocity
  that is present with a level other than normal.
\<close>

definition isCandidate :: "ClusteredEvent \<Rightarrow> bool" where
  "isCandidate c =
     (2 \<le> sourceCount c \<or> isAlert c \<or>
      (case velocity c of None \<Rightarrow> False | Some v \<Rightarrow> level v \<noteq> Normal))"

text \<open>
  \<^verbatim>\<open>candidates.map(c => ({ cluster: c, score: this.getImportanceScore(c) }))\<close>: the
  candidates are scored in their order, one call of \<^verbatim>\<open>getImportanceScore\<close> each, and the
  call number \<open>i\<close> reads the clock at \<open>clock i\<close>.
\<close>

fun scoreAll :: "(nat \<Rightarrow> int) \<Rightarrow> nat \<Rightarrow> ClusteredEvent list \<Rightarrow> ScoredCluster list" where
  "scoreAll clock i [] = []"
| "scoreAll clock i (c # cs) =
     \<lparr>cluster = c, score = getImportanceScore (clock i) c\<rparr> # scoreAll clock (Suc i) cs"

text \<open>
  \<^verbatim>\<open>sort((a, b) => b.score - a.score)\<close> puts the larger score first and, the sort of an
  array being stable, keeps elements of equal score in their order: \<open>sort_key\<close> on the
  negated score does the same.
\<close>

definition selectTopStories ::
  "(nat \<Rightarrow> int) \<Rightarrow> ClusteredEvent list \<Rightarrow> int \<Rightarrow> ClusteredEvent list"
where
  "selectTopStories clock clusters maxCount =
     (let candidates = filter isCandidate clusters;
          scored = sort_key (\<lambda>a. - score a) (scoreAll clock 0 candidates)
      in selectLoop maxCount scored [] Map.empty)"

subsection \<open>The scoring formula as the specification words it\<close>

text \<open>
  The stages of the specification, each a function of its own, to compare with the source:
  the number of keywords of the list found in the lower-cased title, the keyword boost, the
  velocity factor, the alert bonus and the recency factor.
\<close>

definition spec_keywordCount :: "ClusteredEvent \<Rightarrow> nat" where
  "spec_keywordCount c =
     length (filter (includes_str (toLowerCase (primaryTitle c))) CRITICAL_KEYWORDS)"

definition spec_keywordBoost :: "ClusteredEvent \<Rightarrow> real" where
  "spec_keywordBoost c =
     (if 1 \<le> spec_keywordCount c then 40 + 10 * real (spec_keywordCount c) else 0)"

fun spec_velocityFactor :: "VelocityMetrics option \<Rightarrow> real" where
  "spec_velocityFactor None = 1"
| "spec_velocityFactor (Some v) =
     (case level v of Viral \<Rightarrow> 3 | Spike \<Rightarrow> 5 / 2 | Elevated \<Rightarrow> 3 / 2 | Normal \<Rightarrow> 1)"

definition spec_alertBonus :: "ClusteredEvent \<Rightarrow> real" where
  "spec_alertBonus c = (if isAlert c then 50 else 0)"

definition spec_ageHours :: "int \<Rightarrow> ClusteredEvent \<Rightarrow> real" where
  "spec_ageHours now c = real_of_int (now - firstSeen c) / 3600000"

definition spec_recencyFactor :: "int \<Rightarrow> ClusteredEvent \<Rightarrow> real" where
  "spec_recencyFactor now c = max (1 / 2) (1 - spec_ageHours now c / 12)"

definition spec_preDecay :: "ClusteredEvent \<Rightarrow> real" where
  "spec_preDecay c =
     (real (sourceCount c) * 15 + spec_keywordBoost c) * spec_velocityFactor (velocity c)
       + spec_alertBonus c"

subsection \<open>Names for the intermediate values of the selection\<close>

text \<open>
  The array \<^verbatim>\<open>scored\<close> of \<^verbatim>\<open>selectTopStories\<close> after the sort, the reading of the map
  \<^verbatim>\<open>sourceCount\<close> with its default, and the number of clusters of a list that have a given
  primary source.
\<close>

definition rankedCandidates :: "(nat \<Rightarrow> int) \<Rightarrow> ClusteredEvent list \<Rightarrow> ScoredCluster list" where
  "rankedCandidates clock clusters =
     sort_key (\<lambda>a. - score a) (scoreAll clock 0 (filter isCandidate clusters))"

definition countOf :: "(string \<rightharpoonup> nat) \<Rightarrow> string \<Rightarrow> nat" where
  "countOf counts s = (case counts s of None \<Rightarrow> 0 | Some n \<Rightarrow> n)"

definition occurrences :: "string \<Rightarrow> ClusteredEvent list \<Rightarrow> nat" where
  "occurrences s cs = length (filter (\<lambda>c. primarySource c = s) cs)"

subsection \<open>The same functions on a store\<close>

text \<open>
  In the source the clusters are objects and the lists are arrays, all held by reference,
  and three steps of \<^verbatim>\<open>selectTopStories\<close> write to an array: \<^verbatim>\<open>sort\<close> sorts its array in
  place, \<^verbatim>\<open>push\<close> extends \<^verbatim>\<open>selected\<close>, and \<^verbatim>\<open>filter\<close> and \<^verbatim>\<open>map\<close> each make a new array.
  The store is the list of the cells allocated so far, a reference is an index into it, and
  an allocation appends a cell. A cell is a cluster object, an array of references to
  clusters, or the array \<^verbatim>\<open>scored\<close>, whose elements (the object literals with a cluster
  reference and a score, referred to from this array only) are kept as pairs. The map
  \<^verbatim>\<open>sourceCount\<close> is local to the call and stays a value. A read of a reference that
  holds no cell of the expected kind has no result.
\<close>

type_synonym ref = nat

datatype cell =
    ClusterObj ClusteredEvent
  | ClusterArray "ref list"
  | ScoredArray "(ref \<times> real) list"

type_synonym heap = "cell list"

definition alloc :: "cell \<Rightarrow> heap \<Rightarrow> ref \<times> heap" where
  "alloc v h = (length h, h @ [v])"

definition readCluster :: "heap \<Rightarrow> ref \<Rightarrow> ClusteredEvent option" where
  "readCluster h r =
     (if r < length h then (case h ! r of ClusterObj c \<Rightarrow> Some c | _ \<Rightarrow> None) else None)"

definition readClusterArray :: "heap \<Rightarrow> ref \<Rightarrow> ref list option" where
  "readClusterArray h r =
     (if r < length h then (case h ! r of ClusterArray rs \<Rightarrow> Some rs | _ \<Rightarrow> None) else None)"

definition readScoredArray :: "heap \<Rightarrow> ref \<Rightarrow> (ref \<times> real) list option" where
  "readScoredArray h r =
     (if r < length h then (case h ! r of ScoredArray ps \<Rightarrow> Some ps | _ \<Rightarrow> None) else None)"

text \<open>\<^verbatim>\<open>getImportanceScore\<close> reads the fields of its cluster and assigns to locals only.\<close>

definition getImportanceScore_h :: "int \<Rightarrow> ref \<Rightarrow> heap \<Rightarrow> (real \<times> heap) option" where
  "getImportanceScore_h now r h =
     (case readCluster h r of None \<Rightarrow> None | Some c \<Rightarrow> Some (getImportanceScore now c, h))"

text \<open>
  The elements that \<^verbatim>\<open>clusters.filter\<close> keeps, and those that \<^verbatim>\<open>map\<close> produces, the
  call number \<open>i\<close> of \<^verbatim>\<open>getImportanceScore\<close> reading the clock at \<open>clock i\<close>.
\<close>

fun filter_h :: "heap \<Rightarrow> ref list \<Rightarrow> ref list option" where
  "filter_h h [] = Some []"
| "filter_h h (r # rs) =
     (case readCluster h r of
        None \<Rightarrow> None
      | Some c \<Rightarrow>
          (case filter_h h rs of
             None \<Rightarrow> None
           | Some ks \<Rightarrow> Some (if isCandidate c then r # ks else ks)))"

fun map_h ::
  "(nat \<Rightarrow> int) \<Rightarrow> nat \<Rightarrow> ref list \<Rightarrow> heap \<Rightarrow> ((ref \<times> real) list \<times> heap) option"
where
  "map_h clock i [] h = Some ([], h)"
| "map_h clock i (r # rs) h =
     (case getImportanceScore_h (clock i) r h of
        None \<Rightarrow> None
      | Some (s, h1) \<Rightarrow>
          (case map_h clock (Suc i) rs h1 of
             None \<Rightarrow> None
           | Some (ps, h2) \<Rightarrow> Some ((r, s) # ps, h2)))"

text \<open>\<^verbatim>\<open>sort\<close> and \<^verbatim>\<open>push\<close> overwrite the cell of the array they are called on.\<close>

definition sort_h :: "ref \<Rightarrow> heap \<Rightarrow> heap option" where
  "sort_h a h =
     (case readScoredArray h a of
        None \<Rightarrow> None
      | Some ps \<Rightarrow> Some (h[a := ScoredArray (sort_key (\<lambda>p. - snd p) ps)]))"

definition push_h :: "ref \<Rightarrow> ref \<Rightarrow> heap \<Rightarrow> heap option" where
  "push_h a r h =
     (case readClusterArray h a of
        None \<Rightarrow> None
      | Some xs \<Rightarrow> Some (h[a := ClusterArray (xs @ [r])]))"

fun selectLoop_h ::
  "int \<Rightarrow> (ref \<times> real) list \<Rightarrow> ref \<Rightarrow> (string \<rightharpoonup> nat) \<Rightarrow> heap \<Rightarrow> heap option"
where
  "selectLoop_h maxCount [] selected counts h = Some h"
| "selectLoop_h maxCount ((r, s) # rest) selected counts h =
     (case readCluster h r of
        None \<Rightarrow> None
      | Some c \<Rightarrow>
          (let source = primarySource c;
               count = (case counts source of None \<Rightarrow> 0 | Some n \<Rightarrow> n)
           in case (if count < MAX_PER_SOURCE then push_h selected r h else Some h) of
                None \<Rightarrow> None
              | Some h' \<Rightarrow>
                  (let counts' = (if count < MAX_PER_SOURCE
                                  then counts(source \<mapsto> count + 1) else counts)
                   in case readClusterArray h' selected of
                        None \<Rightarrow> None
                      | Some xs \<Rightarrow>
                          if maxCount \<le> int (length xs) then Some h'
                          else selectLoop_h maxCount rest selected counts' h')))"

definition selectTopStories_h ::
  "(nat \<Rightarrow> int) \<Rightarrow> ref \<Rightarrow> int \<Rightarrow> heap \<Rightarrow> (ref \<times> heap) option"
where
  "selectTopStories_h clock clusters maxCount h0 =
     do {
       rs \<leftarrow> readClusterArray h0 clusters;
       ks \<leftarrow> filter_h h0 rs;
       (candidates, h1) \<leftarrow> Some (alloc (ClusterArray ks) h0);
       cs \<leftarrow> readClusterArray h1 candidates;
       (ps, h2) \<leftarrow> map_h clock 0 cs h1;
       (scored, h3) \<leftarrow> Some (alloc (ScoredArray ps) h2);
       h4 \<leftarrow> sort_h scored h3;
       (selected, h5) \<leftarrow> Some (alloc (ClusterArray []) h4);
       sorted_ps \<leftarrow> readScoredArray h5 scored;
       h6 \<leftarrow> selectLoop_h maxCount sorted_ps selected Map.empty h5;
       Some (selected, h6)
     }"

text \<open>
  A reference stands for a cluster in a store, and an element of the stored array
  \<^verbatim>\<open>scored\<close> for an element of the list \<open>scored\<close>.
\<close>

definition resolves :: "heap \<Rightarrow> ref \<Rightarrow> ClusteredEvent \<Rightarrow> bool" where
  "resolves h r c = (readCluster h r = Some c)"

definition resolvesScored :: "heap \<Rightarrow> ref \<times> real \<Rightarrow> ScoredCluster \<Rightarrow> bool" where
  "resolvesScored h p sc = (readCluster h (fst p) = Some (cluster sc) \<and> snd p = score sc)"

subsection \<open>Example clusters\<close>

text \<open>Concrete clusters on which the theorems below are instantiated.\<close>

definition exAlert :: ClusteredEvent where
  "exAlert =
     \<lparr>primaryTitle = ''Russia launches missile strike'', primarySource = ''reuters'',
      sourceCount = 3, firstSeen = 0,
      velocity = Some \<lparr>level = Spike, trend = ''rising'', sourcesPerHour = 4\<rparr>,
      isAlert = True\<rparr>"

definition exQuiet :: ClusteredEvent where
  "exQuiet =
     \<lparr>primaryTitle = ''Local weather update'', primarySource = ''bbc'',
      sourceCount = 2, firstSeen = 0, velocity = None, isAlert = False\<rparr>"

definition exSoftware :: ClusteredEvent where
  "exSoftware =
     \<lparr>primaryTitle = ''New Software update'', primarySource = ''wired'',
      sourceCount = 2, firstSeen = 0, velocity = None, isAlert = False\<rparr>"

definition exSingle :: ClusteredEvent where
  "exSingle =
     \<lparr>primaryTitle = ''War and crisis: nuclear missile attack'', primarySource = ''bbc'',
      sourceCount = 1, firstSeen = 0,
      velocity = Some \<lparr>level = Normal, trend = ''stable'', sourcesPerHour = 1\<rparr>,
      isAlert = False\<rparr>"

definition exFive :: "ClusteredEvent list" where
  "exFive = map (\<lambda>n. exQuiet\<lparr>sourceCount := n\<rparr>) [2, 3, 4, 5, 6]"

definition exMixed :: "ClusteredEvent list" where
  "exMixed = [exQuiet, exSingle, exAlert, exSoftware]"

text \<open>
  Two clusters that differ in \<^verbatim>\<open>firstSeen\<close> by one millisecond, and a clock that starts an
  hour after the first of them was seen and advances by a millisecond with each reading.
\<close>

definition exEarly :: ClusteredEvent where
  "exEarly = exQuiet\<lparr>primaryTitle := ''Early story'', firstSeen := 0\<rparr>"

definition exLate :: ClusteredEvent where
  "exLate = exQuiet\<lparr>primaryTitle := ''Late story'', firstSeen := 1\<rparr>"

definition exClock :: "nat \<Rightarrow> int" where
  "exClock i = 3600000 + int i"

definition exHeap :: heap where
  "exHeap =
     [ClusterObj exQuiet, ClusterObj exSingle, ClusterArray [0, 1, 3, 4],
      ClusterObj exAlert, ClusterObj exSoftware]"

section \<open>Properties\<close>

subsection \<open>Substring containment\<close>

text \<open>\<open>includes_str\<close> is containment at any position, between any neighbours.\<close>

lemma startsWith_iff: "startsWith s kw \<longleftrightarrow> (\<exists>q. s = kw @ q)"
  by (induction s kw rule: startsWith.induct) auto

lemma includes_str_iff: "includes_str s kw \<longleftrightarrow> (\<exists>p q. s = p @ kw @ q)"
proof (induction s)
  case Nil
  show ?case by (cases kw) simp_all
next
  case (Cons c cs)
  show ?case
  proof
    assume "includes_str (c # cs) kw"
    then consider "startsWith (c # cs) kw" | "includes_str cs kw" by auto
    then show "\<exists>p q. c # cs = p @ kw @ q"
    proof cases
      case 1
      then obtain q where "c # cs = kw @ q" by (auto simp: startsWith_iff)
      then have "c # cs = [] @ kw @ q" by simp
      then show ?thesis by blast
    next
      case 2
      then obtain p q where "cs = p @ kw @ q" using Cons.IH by auto
      then have "c # cs = (c # p) @ kw @ q" by simp
      then show ?thesis by blast
    qed
  next
    assume "\<exists>p q. c # cs = p @ kw @ q"
    then obtain p q where pq: "c # cs = p @ kw @ q" by blast
    show "includes_str (c # cs) kw"
    proof (cases p)
      case Nil
      with pq have "startsWith (c # cs) kw" by (auto simp: startsWith_iff)
      then show ?thesis by simp
    next
      case (Cons a p')
      with pq have "cs = p' @ kw @ q" by simp
      then have "includes_str cs kw" using Cons.IH by blast
      then show ?thesis by simp
    qed
  qed
qed

subsection \<open>The source against the stages of the specification\<close>


lemma velMultiplier_lookup:
  "(case map_of velMultiplier (case vo of None \<Rightarrow> Normal | Some v \<Rightarrow> level v) of
      None \<Rightarrow> 1 | Some m \<Rightarrow> m) = spec_velocityFactor vo"
  by (cases vo) (simp_all add: velMultiplier_def split: VelocityLevel.split)

lemma getImportanceScore_stages:
  "getImportanceScore now c = spec_preDecay c * spec_recencyFactor now c"
proof -
  let ?k = "length (filter (includes_str (toLowerCase (primaryTitle c))) CRITICAL_KEYWORDS)"
  have k: "(0 < ?k) = (1 \<le> ?k)"
    by (simp add: Suc_le_eq)
  show ?thesis
    unfolding getImportanceScore_def Let_def velMultiplier_lookup k
    by (simp add: spec_preDecay_def spec_recencyFactor_def spec_ageHours_def
        spec_keywordBoost_def spec_keywordCount_def spec_alertBonus_def)
qed

subsection \<open>Facts about the stages\<close>

lemma spec_velocityFactor_pos: "0 < spec_velocityFactor vo"
  by (cases vo) (simp_all split: VelocityLevel.split)

lemma spec_recencyFactor_ge_half: "1 / 2 \<le> spec_recencyFactor now c"
  by (simp add: spec_recencyFactor_def)

lemma spec_recencyFactor_pos: "0 < spec_recencyFactor now c"
  using spec_recencyFactor_ge_half [of now c] by linarith

lemma spec_keywordBoost_nonneg: "0 \<le> spec_keywordBoost c"
  by (simp add: spec_keywordBoost_def)

lemma spec_preDecay_nonneg: "0 \<le> spec_preDecay c"
  unfolding spec_preDecay_def
  by (intro add_nonneg_nonneg mult_nonneg_nonneg spec_keywordBoost_nonneg
      less_imp_le [OF spec_velocityFactor_pos]) (simp_all add: spec_alertBonus_def)

subsection \<open>Order of the operations\<close>

text \<open>
  Claim C1. For every cluster, the score of \<^verbatim>\<open>getImportanceScore\<close> is computed in the fixed
  order: the base, 15 for each source, plus the keyword boost of 40 and 10 for each keyword
  found in the lower-cased title when at least one is found; the sum multiplied by the
  velocity factor (viral 3, spike 2.5, elevated 1.5, normal or no velocity 1); then 50 added
  for an alert; then the whole multiplied by the recency factor.
\<close>

theorem getImportanceScore_order:
  "getImportanceScore now c =
     ((real (sourceCount c) * 15 + spec_keywordBoost c) * spec_velocityFactor (velocity c)
        + spec_alertBonus c) * spec_recencyFactor now c"
  by (simp add: getImportanceScore_stages spec_preDecay_def)

text \<open>
  Three sources and the keywords russia, missile and strike give 45 + 70; the spike makes it
  287.5; the alert 337.5; six hours of age halve it.
\<close>

theorem getImportanceScore_order_witness:
  "getImportanceScore 21600000 exAlert = 675 / 4"
proof -
  have "((real (sourceCount exAlert) * 15 + spec_keywordBoost exAlert)
          * spec_velocityFactor (velocity exAlert) + spec_alertBonus exAlert)
        * spec_recencyFactor 21600000 exAlert = 675 / 4"
    by code_simp
  with getImportanceScore_order [of 21600000 exAlert] show ?thesis
    by (simp only:)
qed

subsection \<open>Monotonicity in the number of sources\<close>

text \<open>
  Claim C7. Of two clusters that agree in every attribute but \<^verbatim>\<open>sourceCount\<close>, scored at the
  same instant, the one with the strictly larger \<^verbatim>\<open>sourceCount\<close> has the strictly larger
  score.
\<close>

theorem getImportanceScore_strict_mono_sourceCount:
  assumes "b = a\<lparr>sourceCount := sourceCount b\<rparr>" and "sourceCount a < sourceCount b"
  shows "getImportanceScore now a < getImportanceScore now b"
proof -
  have kb: "spec_keywordBoost b = spec_keywordBoost a"
    by (subst assms(1)) (simp add: spec_keywordBoost_def spec_keywordCount_def)
  have vel: "velocity b = velocity a"
    by (subst assms(1)) simp
  have al: "spec_alertBonus b = spec_alertBonus a"
    by (subst assms(1)) (simp add: spec_alertBonus_def)
  have rc: "spec_recencyFactor now b = spec_recencyFactor now a"
    by (subst assms(1)) (simp add: spec_recencyFactor_def spec_ageHours_def)
  have "real (sourceCount a) * 15 < real (sourceCount b) * 15"
    using assms(2) by simp
  then have "(real (sourceCount a) * 15 + spec_keywordBoost a) * spec_velocityFactor (velocity a)
      < (real (sourceCount b) * 15 + spec_keywordBoost a) * spec_velocityFactor (velocity a)"
    using spec_velocityFactor_pos [of "velocity a"] by simp
  then have "spec_preDecay a < spec_preDecay b"
    by (simp add: spec_preDecay_def kb vel al)
  then show ?thesis
    using spec_recencyFactor_pos [of now a] by (simp add: getImportanceScore_stages rc)
qed

theorem getImportanceScore_strict_mono_sourceCount_witness:
  "sourceCount exQuiet < sourceCount (exQuiet\<lparr>sourceCount := 5\<rparr>) \<and>
   getImportanceScore 7200000 exQuiet
     < getImportanceScore 7200000 (exQuiet\<lparr>sourceCount := 5\<rparr>)"
proof -
  have eq: "exQuiet\<lparr>sourceCount := 5\<rparr>
      = exQuiet\<lparr>sourceCount := sourceCount (exQuiet\<lparr>sourceCount := 5\<rparr>)\<rparr>"
    by simp
  have lt: "sourceCount exQuiet < sourceCount (exQuiet\<lparr>sourceCount := 5\<rparr>)"
    by (simp add: exQuiet_def)
  from getImportanceScore_strict_mono_sourceCount [OF eq lt, of 7200000] lt
  show ?thesis by (simp only: simp_thms)
qed

subsection \<open>The alert bonus and the recency factor\<close>

text \<open>
  Claim C2, as the specification states it: for a cluster flagged as an alert the bonus
  contributes exactly 50 to the final score whatever the age of the cluster, the recency
  factor scaling only the rest. The source adds the 50 before it multiplies by the recency
  factor. For the cluster \<open>exAlert\<close> the alert is worth 50 at age zero and 25 at the age of
  six hours.
\<close>

theorem alert_bonus_counterexample:
  "isAlert exAlert \<and>
   getImportanceScore 0 exAlert - getImportanceScore 0 (exAlert\<lparr>isAlert := False\<rparr>) = 50 \<and>
   getImportanceScore 21600000 exAlert
     - getImportanceScore 21600000 (exAlert\<lparr>isAlert := False\<rparr>) = 25"
  by code_simp

text \<open>
  Claim C2, amended. For every cluster flagged as an alert, the bonus of 50 is added after
  the velocity factor, which does not scale it, and before the recency factor, which scales
  it as it scales the rest of the score: the alert contributes exactly 50 times
  \<open>max(0.5, 1 - ageHours/12)\<close> to the final score.
\<close>

theorem alert_bonus_scaled_by_recency:
  assumes "isAlert c"
  shows "getImportanceScore now c =
      (real (sourceCount c) * 15 + spec_keywordBoost c) * spec_velocityFactor (velocity c)
         * spec_recencyFactor now c
       + 50 * spec_recencyFactor now c
    \<and> getImportanceScore now c - getImportanceScore now (c\<lparr>isAlert := False\<rparr>)
       = 50 * max (1 / 2) (1 - (real_of_int (now - firstSeen c) / 3600000) / 12)"
proof
  show "getImportanceScore now c =
      (real (sourceCount c) * 15 + spec_keywordBoost c) * spec_velocityFactor (velocity c)
         * spec_recencyFactor now c
       + 50 * spec_recencyFactor now c"
    using assms
    by (simp add: getImportanceScore_stages spec_preDecay_def spec_alertBonus_def
        distrib_right)
  have "spec_preDecay c = spec_preDecay (c\<lparr>isAlert := False\<rparr>) + 50"
    using assms
    by (simp add: spec_preDecay_def spec_alertBonus_def spec_keywordBoost_def
        spec_keywordCount_def)
  moreover have "spec_recencyFactor now (c\<lparr>isAlert := False\<rparr>) = spec_recencyFactor now c"
    by (simp add: spec_recencyFactor_def spec_ageHours_def)
  ultimately show "getImportanceScore now c - getImportanceScore now (c\<lparr>isAlert := False\<rparr>)
       = 50 * max (1 / 2) (1 - (real_of_int (now - firstSeen c) / 3600000) / 12)"
    by (simp add: getImportanceScore_stages distrib_right)
       (simp add: spec_recencyFactor_def spec_ageHours_def)
qed

text \<open>At the age of three hours the recency factor is 0.75 and the alert is worth 37.5.\<close>

theorem alert_bonus_scaled_by_recency_witness:
  "isAlert exAlert \<and>
   getImportanceScore 10800000 exAlert
     - getImportanceScore 10800000 (exAlert\<lparr>isAlert := False\<rparr>) = 75 / 2"
proof -
  have al: "isAlert exAlert"
    by (simp add: exAlert_def)
  have "50 * max (1 / 2) (1 - (real_of_int (10800000 - firstSeen exAlert) / 3600000) / 12)
      = 75 / 2"
    by (simp add: exAlert_def)
  with conjunct2 [OF alert_bonus_scaled_by_recency [OF al, of 10800000]] al show ?thesis
    by (simp only: simp_thms)
qed

text \<open>
  Claim C8. The recency factor that \<^verbatim>\<open>getImportanceScore\<close> applies is
  \<open>max(0.5, 1 - ageHours/12)\<close>, with \<open>ageHours\<close> the age since \<^verbatim>\<open>firstSeen\<close> in hours. At
  age zero the score is the value before the decay; a cluster older than twelve hours scores
  half of that, so at least half; and at no age does the score drop below half the value
  before the decay.
\<close>

theorem recency_floor:
  "getImportanceScore now c
     = spec_preDecay c * max (1 / 2) (1 - (real_of_int (now - firstSeen c) / 3600000) / 12)
   \<and> getImportanceScore (firstSeen c) c = spec_preDecay c
   \<and> (12 < real_of_int (now - firstSeen c) / 3600000 \<longrightarrow>
        getImportanceScore now c = (1 / 2) * getImportanceScore (firstSeen c) c)
   \<and> (1 / 2) * getImportanceScore (firstSeen c) c \<le> getImportanceScore now c
   \<and> spec_preDecay c / 2 \<le> getImportanceScore now c"
proof -
  have a: "getImportanceScore now c
     = spec_preDecay c * max (1 / 2) (1 - (real_of_int (now - firstSeen c) / 3600000) / 12)"
    by (simp add: getImportanceScore_stages spec_recencyFactor_def spec_ageHours_def)
  have b: "getImportanceScore (firstSeen c) c = spec_preDecay c"
    by (simp add: getImportanceScore_stages spec_recencyFactor_def spec_ageHours_def)
  have c: "12 < real_of_int (now - firstSeen c) / 3600000 \<longrightarrow>
        getImportanceScore now c = (1 / 2) * getImportanceScore (firstSeen c) c"
    unfolding b by (simp add: a max_def)
  have d: "spec_preDecay c / 2 \<le> getImportanceScore now c"
    using mult_left_mono [OF spec_recencyFactor_ge_half [of now c] spec_preDecay_nonneg [of c]]
    by (simp add: getImportanceScore_stages)
  from a b c d show ?thesis by simp
qed

text \<open>A day after it was first seen, \<open>exAlert\<close> scores half of its 337.5.\<close>

theorem recency_floor_witness:
  "12 < real_of_int (86400000 - firstSeen exAlert) / 3600000 \<and>
   getImportanceScore (firstSeen exAlert) exAlert = 675 / 2 \<and>
   getImportanceScore 86400000 exAlert = 675 / 4"
proof -
  have age: "12 < real_of_int (86400000 - firstSeen exAlert) / 3600000"
    by (simp add: exAlert_def)
  have pre: "spec_preDecay exAlert = 675 / 2"
    by code_simp
  from recency_floor [of 86400000 exAlert] age pre show ?thesis
    by simp
qed

subsection \<open>Keywords match inside longer words\<close>

text \<open>
  Claim C10. Keyword matching is substring containment in the lower-cased title, not
  matching of whole words: whenever a keyword stands anywhere in the lower-cased title,
  also inside a longer word as \<open>war\<close> in \<open>software\<close>, the boost of 40 plus 10 for each
  matching keyword is applied.
\<close>

theorem keyword_substring_boost:
  assumes "kw \<in> set CRITICAL_KEYWORDS"
    and "toLowerCase (primaryTitle c) = p @ kw @ q"
  shows "1 \<le> spec_keywordCount c
    \<and> getImportanceScore now c =
       ((real (sourceCount c) * 15 + (40 + 10 * real (spec_keywordCount c)))
           * spec_velocityFactor (velocity c) + spec_alertBonus c) * spec_recencyFactor now c"
proof -
  have "includes_str (toLowerCase (primaryTitle c)) kw"
    using assms(2) by (auto simp: includes_str_iff)
  with assms(1)
  have "kw \<in> set (filter (includes_str (toLowerCase (primaryTitle c))) CRITICAL_KEYWORDS)"
    by simp
  then have "0 < length (filter (includes_str (toLowerCase (primaryTitle c))) CRITICAL_KEYWORDS)"
    by (rule length_pos_if_in_set)
  then have k: "1 \<le> spec_keywordCount c"
    by (simp add: spec_keywordCount_def Suc_le_eq)
  then show ?thesis
    by (simp add: getImportanceScore_stages spec_preDecay_def spec_keywordBoost_def)
qed

text \<open>
  The title \<open>New Software update\<close> holds no keyword as a word; \<open>war\<close> inside \<open>software\<close> is
  the one match, and two sources with the boost of 50 score 80 at age zero.
\<close>

theorem keyword_substring_boost_witness:
  "toLowerCase (primaryTitle exSoftware) = ''new soft'' @ ''war'' @ ''e update'' \<and>
   filter (includes_str (toLowerCase (primaryTitle exSoftware))) CRITICAL_KEYWORDS
     = [''war''] \<and>
   getImportanceScore 0 exSoftware = 80"
proof -
  have kw: "''war'' \<in> set CRITICAL_KEYWORDS"
    by (simp add: CRITICAL_KEYWORDS_def)
  have t: "toLowerCase (primaryTitle exSoftware) = ''new soft'' @ ''war'' @ ''e update''"
    by code_simp
  have f: "filter (includes_str (toLowerCase (primaryTitle exSoftware))) CRITICAL_KEYWORDS
      = [''war'']"
    by code_simp
  have rest: "spec_velocityFactor (velocity exSoftware) = 1" "spec_alertBonus exSoftware = 0"
    "spec_recencyFactor 0 exSoftware = 1" "real (sourceCount exSoftware) = 2"
    by code_simp+
  have k: "spec_keywordCount exSoftware = 1"
    by (simp add: spec_keywordCount_def f)
  from keyword_substring_boost [OF kw t, of 0]
  have "getImportanceScore 0 exSoftware = 80"
    by (simp add: k rest)
  with t f show ?thesis by (simp only: simp_thms)
qed

subsection \<open>The selection loop\<close>

text \<open>
  Three facts about the loop, each for any state in which it is entered: it extends
  \<open>selected\<close> by a subsequence of the clusters it walks, it keeps an order that its input
  has, and it keeps every source within the cap once the map agrees with \<open>selected\<close>.
\<close>

lemma selectLoop_sorted_wrt:
  "sorted_wrt P (selected @ map cluster xs) \<Longrightarrow> sorted_wrt P (selectLoop maxCount xs selected counts)"
proof (induction xs arbitrary: selected counts)
  case Nil
  then show ?case by simp
next
  case (Cons x xs)
  from Cons.prems have 1: "sorted_wrt P (selected @ map cluster xs)"
    by (auto simp: sorted_wrt_append)
  from Cons.prems have 2: "sorted_wrt P ((selected @ [cluster x]) @ map cluster xs)"
    by simp
  from 1 have 3: "sorted_wrt P selected" by (simp add: sorted_wrt_append)
  have 4: "sorted_wrt P (selected @ [cluster x])"
    using 2 sorted_wrt_append [of P "selected @ [cluster x]" "map cluster xs"] by blast
  show ?case
    using Cons.IH [OF 1] Cons.IH [OF 2] 3 4
    by (simp add: Let_def)
qed

lemma selectLoop_picks:
  "\<exists>zs. subseq zs xs \<and> selectLoop maxCount xs selected counts = selected @ map cluster zs"
proof (induction xs arbitrary: selected counts)
  case Nil
  then show ?case by simp
next
  case (Cons x xs)
  let ?count = "case counts (primarySource (cluster x)) of None \<Rightarrow> 0 | Some n \<Rightarrow> n"
  show ?case
  proof (cases "?count < MAX_PER_SOURCE")
    case True
    let ?sel = "selected @ [cluster x]"
    let ?cnt = "counts(primarySource (cluster x) \<mapsto> ?count + 1)"
    show ?thesis
    proof (cases "maxCount \<le> int (length ?sel)")
      case stop: True
      have "selectLoop maxCount (x # xs) selected counts = selected @ map cluster [x]"
        using True stop by (simp add: Let_def)
      moreover have "subseq [x] (x # xs)" by simp
      ultimately show ?thesis by blast
    next
      case go: False
      have eq: "selectLoop maxCount (x # xs) selected counts = selectLoop maxCount xs ?sel ?cnt"
        using True go by (simp add: Let_def)
      from Cons.IH [of ?sel ?cnt] obtain zs where
        zs: "subseq zs xs" "selectLoop maxCount xs ?sel ?cnt = ?sel @ map cluster zs"
        by blast
      have "selectLoop maxCount (x # xs) selected counts = selected @ map cluster (x # zs)"
        using eq zs(2) by simp
      moreover have "subseq (x # zs) (x # xs)"
        using zs(1) by simp
      ultimately show ?thesis by blast
    qed
  next
    case False
    show ?thesis
    proof (cases "maxCount \<le> int (length selected)")
      case stop: True
      have "selectLoop maxCount (x # xs) selected counts = selected @ map cluster []"
        using False stop by (simp add: Let_def)
      moreover have "subseq [] (x # xs)" by simp
      ultimately show ?thesis by blast
    next
      case go: False
      have eq: "selectLoop maxCount (x # xs) selected counts
          = selectLoop maxCount xs selected counts"
        using False go by (simp add: Let_def)
      from Cons.IH [of selected counts] obtain zs where
        zs: "subseq zs xs" "selectLoop maxCount xs selected counts = selected @ map cluster zs"
        by blast
      have "subseq zs (x # xs)"
        using zs(1) by (simp add: list_emb_Cons)
      with eq zs(2) show ?thesis by auto
    qed
  qed
qed

lemma selectLoop_subseq:
  "\<exists>ys. selectLoop maxCount xs selected counts = selected @ ys \<and> subseq ys (map cluster xs)"
proof -
  from selectLoop_picks [of xs maxCount selected counts] obtain zs where
    zs: "subseq zs xs" "selectLoop maxCount xs selected counts = selected @ map cluster zs"
    by blast
  have "subseq (map cluster zs) (map cluster xs)"
    using zs(1) by (rule subseq_map)
  with zs(2) show ?thesis by blast
qed

lemma selectLoop_cap:
  assumes "\<And>s. countOf counts s = occurrences s selected"
    and "\<And>s. occurrences s selected \<le> MAX_PER_SOURCE"
  shows "occurrences s (selectLoop maxCount xs selected counts) \<le> MAX_PER_SOURCE"
  using assms
proof (induction xs arbitrary: selected counts)
  case Nil
  then show ?case by simp
next
  case (Cons x xs)
  let ?src = "primarySource (cluster x)"
  let ?count = "case counts ?src of None \<Rightarrow> 0 | Some n \<Rightarrow> n"
  have cnt: "?count = occurrences ?src selected"
    using Cons.prems(1) [of ?src] by (simp add: countOf_def)
  show ?case
  proof (cases "?count < MAX_PER_SOURCE")
    case True
    let ?sel = "selected @ [cluster x]"
    let ?cnt = "counts(?src \<mapsto> ?count + 1)"
    have inv1: "\<And>t. countOf ?cnt t = occurrences t ?sel"
    proof -
      fix t
      show "countOf ?cnt t = occurrences t ?sel"
      proof (cases "t = ?src")
        case True
        then show ?thesis using cnt by (simp add: countOf_def occurrences_def)
      next
        case False
        then show ?thesis using Cons.prems(1) [of t] by (auto simp add: countOf_def occurrences_def)
      qed
    qed
    have inv2: "\<And>t. occurrences t ?sel \<le> MAX_PER_SOURCE"
    proof -
      fix t
      show "occurrences t ?sel \<le> MAX_PER_SOURCE"
      proof (cases "t = ?src")
        case eq: True
        have "occurrences t ?sel = Suc (occurrences ?src selected)"
          using eq by (simp add: occurrences_def)
        then show ?thesis using True cnt by simp
      next
        case False
        then have "occurrences t ?sel = occurrences t selected" by (auto simp add: occurrences_def)
        then show ?thesis using Cons.prems(2) [of t] by simp
      qed
    qed
    show ?thesis
    proof (cases "maxCount \<le> int (length ?sel)")
      case stop: True
      have eq: "selectLoop maxCount (x # xs) selected counts = ?sel"
        using True stop by (simp add: Let_def)
      show ?thesis unfolding eq by (rule inv2)
    next
      case go: False
      have eq: "selectLoop maxCount (x # xs) selected counts = selectLoop maxCount xs ?sel ?cnt"
        using True go by (simp add: Let_def)
      show ?thesis unfolding eq by (rule Cons.IH [OF inv1 inv2])
    qed
  next
    case False
    show ?thesis
    proof (cases "maxCount \<le> int (length selected)")
      case stop: True
      have eq: "selectLoop maxCount (x # xs) selected counts = selected"
        using False stop by (simp add: Let_def)
      show ?thesis unfolding eq by (rule Cons.prems(2))
    next
      case go: False
      have eq: "selectLoop maxCount (x # xs) selected counts = selectLoop maxCount xs selected counts"
        using False go by (simp add: Let_def)
      show ?thesis unfolding eq by (rule Cons.IH [OF Cons.prems])
    qed
  qed
qed

subsection \<open>The candidates in their order\<close>

text \<open>
  The array \<^verbatim>\<open>scored\<close> holds each candidate once, with the score of its own call of
  \<^verbatim>\<open>getImportanceScore\<close>, and after the sort it is in the order of non-increasing recorded
  score. When the clock stands still during the call, the recorded score of a candidate
  is its score at that one instant.
\<close>

lemma map_cluster_scoreAll: "map cluster (scoreAll clock i cs) = cs"
  by (induction cs arbitrary: i) simp_all

lemma scoreAll_const:
  "scoreAll (\<lambda>i. now) i cs = map (\<lambda>c. \<lparr>cluster = c, score = getImportanceScore now c\<rparr>) cs"
  by (induction cs arbitrary: i) simp_all

lemma sorted_wrt_subseq:
  "subseq xs ys \<Longrightarrow> sorted_wrt P ys \<Longrightarrow> sorted_wrt P xs"
proof (induction rule: list_emb.induct)
  case (list_emb_Nil ys)
  then show ?case by simp
next
  case (list_emb_Cons xs ys y)
  then show ?case by simp
next
  case (list_emb_Cons2 x y xs ys)
  have "set xs \<subseteq> set ys"
    using list_emb_Cons2.hyps(2) by (auto dest: list_emb_set)
  then show ?case
    using list_emb_Cons2 by auto
qed

lemma selectTopStories_loop:
  "selectTopStories clock clusters maxCount
     = selectLoop maxCount (rankedCandidates clock clusters) [] Map.empty"
  by (simp add: selectTopStories_def rankedCandidates_def)

lemma set_rankedCandidates:
  "set (rankedCandidates clock clusters) = set (scoreAll clock 0 (filter isCandidate clusters))"
  by (simp add: rankedCandidates_def)

lemma map_cluster_rankedCandidates_set:
  "set (map cluster (rankedCandidates clock clusters)) = {c \<in> set clusters. isCandidate c}"
proof -
  have "set (map cluster (rankedCandidates clock clusters))
      = set (map cluster (scoreAll clock 0 (filter isCandidate clusters)))"
    by (simp add: set_rankedCandidates)
  then show ?thesis
    by (simp only: map_cluster_scoreAll) auto
qed

lemma rankedCandidates_recorded_descending:
  "sorted_wrt (\<lambda>a b. score b \<le> score a) (rankedCandidates clock clusters)"
proof -
  have "sorted (map (\<lambda>a. - score a) (rankedCandidates clock clusters))"
    unfolding rankedCandidates_def by (rule sorted_sort_key)
  then show ?thesis
    by (simp add: sorted_wrt_map)
qed

lemma rankedCandidates_score:
  "x \<in> set (rankedCandidates (\<lambda>i. now) clusters) \<Longrightarrow>
   score x = getImportanceScore now (cluster x)"
  by (auto simp: rankedCandidates_def scoreAll_const)

lemma rankedCandidates_descending:
  "sorted_wrt (\<lambda>a b. getImportanceScore now b \<le> getImportanceScore now a)
     (map cluster (rankedCandidates (\<lambda>i. now) clusters))"
proof -
  have "sorted_wrt
      (\<lambda>a b. getImportanceScore now (cluster b) \<le> getImportanceScore now (cluster a))
      (rankedCandidates (\<lambda>i. now) clusters)"
    using rankedCandidates_recorded_descending [of "\<lambda>i. now" clusters]
    by (rule sorted_wrt_mono_rel [rotated]) (simp add: rankedCandidates_score)
  then show ?thesis
    by (simp add: sorted_wrt_map)
qed

lemma selectTopStories_picks:
  "\<exists>scs. subseq scs (rankedCandidates clock clusters)
     \<and> selectTopStories clock clusters maxCount = map cluster scs"
  using selectLoop_picks [of "rankedCandidates clock clusters" maxCount "[]" Map.empty]
  by (simp add: selectTopStories_loop)

lemma selectTopStories_subseq:
  "subseq (selectTopStories clock clusters maxCount)
     (map cluster (rankedCandidates clock clusters))"
  using selectLoop_subseq [of maxCount "rankedCandidates clock clusters" "[]" Map.empty]
  by (auto simp: selectTopStories_loop)

lemma selectTopStories_set:
  "set (selectTopStories clock clusters maxCount) \<subseteq> {c \<in> set clusters. isCandidate c}"
proof
  fix c
  assume "c \<in> set (selectTopStories clock clusters maxCount)"
  with selectTopStories_subseq [of clock clusters maxCount]
  have "c \<in> set (map cluster (rankedCandidates clock clusters))"
    by (auto dest: list_emb_set)
  then show "c \<in> {c \<in> set clusters. isCandidate c}"
    by (simp only: map_cluster_rankedCandidates_set)
qed

subsection \<open>The filter\<close>

text \<open>
  Claim C4. A cluster with fewer than two sources, no alert, and a velocity that is missing
  or of level normal is in the output of \<^verbatim>\<open>selectTopStories\<close> for no input list and no
  \<^verbatim>\<open>maxCount\<close>, whatever its score and whatever the clock reads.
\<close>

theorem selectTopStories_excludes:
  assumes "sourceCount c < 2" and "\<not> isAlert c"
    and "velocity c = None \<or> map_option level (velocity c) = Some Normal"
  shows "c \<notin> set (selectTopStories clock clusters maxCount)"
proof -
  have "\<not> isCandidate c"
    using assms by (auto simp: isCandidate_def split: option.splits)
  then show ?thesis
    using selectTopStories_set [of clock clusters maxCount] by blast
qed

text \<open>
  \<open>exSingle\<close> has one source and a title with five keywords: it scores 105, more than the
  30 of \<open>exQuiet\<close> and the 80 of \<open>exSoftware\<close>, and is left out.
\<close>

theorem selectTopStories_excludes_witness:
  "sourceCount exSingle < 2 \<and> \<not> isAlert exSingle \<and>
   map_option level (velocity exSingle) = Some Normal \<and>
   getImportanceScore 0 exSoftware < getImportanceScore 0 exSingle \<and>
   exSingle \<in> set exMixed \<and>
   exSingle \<notin> set (selectTopStories (\<lambda>i. 0) exMixed 8)"
proof -
  have 1: "sourceCount exSingle < 2" and 2: "\<not> isAlert exSingle"
    and 3: "map_option level (velocity exSingle) = Some Normal"
    by (simp_all add: exSingle_def)
  have 4: "getImportanceScore 0 exSoftware < getImportanceScore 0 exSingle"
    by code_simp
  have 5: "exSingle \<in> set exMixed"
    by (simp add: exMixed_def)
  from selectTopStories_excludes [OF 1 2 disjI2 [OF 3], of "\<lambda>i. 0" exMixed 8] 1 2 3 4 5
  show ?thesis by (simp only: simp_thms)
qed

subsection \<open>The cap on a primary source\<close>

text \<open>
  Claim C5. For every input list and every \<^verbatim>\<open>maxCount\<close>, at most three elements of the
  list that \<^verbatim>\<open>selectTopStories\<close> returns have any one primary source; so of five candidates
  with one primary source at most three are selected, also when \<^verbatim>\<open>maxCount\<close> is 5 or more.
\<close>

theorem selectTopStories_source_cap:
  "length (filter (\<lambda>c. primarySource c = s) (selectTopStories clock clusters maxCount)) \<le> 3"
proof -
  have "occurrences s (selectLoop maxCount (rankedCandidates clock clusters) [] Map.empty)
      \<le> MAX_PER_SOURCE"
    by (rule selectLoop_cap) (simp_all add: countOf_def occurrences_def)
  then show ?thesis
    by (simp add: selectTopStories_loop occurrences_def MAX_PER_SOURCE_def)
qed

text \<open>The five clusters of \<open>exFive\<close> have the source \<open>bbc\<close>; three of them are selected.\<close>

theorem selectTopStories_source_cap_witness:
  "map primarySource exFive = [''bbc'', ''bbc'', ''bbc'', ''bbc'', ''bbc''] \<and>
   length (filter isCandidate exFive) = 5 \<and>
   length (filter (\<lambda>c. primarySource c = ''bbc'') (selectTopStories (\<lambda>i. 0) exFive 5)) \<le> 3 \<and>
   map sourceCount (selectTopStories (\<lambda>i. 0) exFive 5) = [6, 5, 4]"
proof -
  have 1: "map primarySource exFive = [''bbc'', ''bbc'', ''bbc'', ''bbc'', ''bbc'']"
    by code_simp
  have 2: "length (filter isCandidate exFive) = 5"
    by code_simp
  have 3: "map sourceCount (selectTopStories (\<lambda>i. 0) exFive 5) = [6, 5, 4]"
    by code_simp
  from selectTopStories_source_cap [of "''bbc''" "\<lambda>i. 0" exFive 5] 1 2 3
  show ?thesis by (simp only: simp_thms)
qed

subsection \<open>The order of the output\<close>

text \<open>
  Claim C6, as the specification states it: for every input list and every \<^verbatim>\<open>maxCount\<close>
  the list that \<^verbatim>\<open>selectTopStories\<close> returns is in the order of non-increasing score, the
  score being that of \<^verbatim>\<open>getImportanceScore\<close> at one and the same instant. The source scores
  each candidate at its own reading of \<^verbatim>\<open>Date.now()\<close> and sorts by the scores so recorded.
  With the clock \<open>exClock\<close>, \<open>exEarly\<close> is scored at 3600000 and \<open>exLate\<close>, first seen a
  millisecond later, at 3600001: both are an hour old at their reading, the recorded scores
  are 27.5 each, and the stable sort keeps \<open>exEarly\<close> first. At either of the two instants
  taken alone \<open>exEarly\<close> is the older of the two and scores strictly less than \<open>exLate\<close>.
\<close>

theorem selectTopStories_descending_counterexample:
  "selectTopStories exClock [exEarly, exLate] 8 = [exEarly, exLate] \<and>
   map score (rankedCandidates exClock [exEarly, exLate]) = [55 / 2, 55 / 2] \<and>
   getImportanceScore (exClock 0) exEarly < getImportanceScore (exClock 0) exLate \<and>
   getImportanceScore (exClock 1) exEarly < getImportanceScore (exClock 1) exLate \<and>
   \<not> sorted_wrt (\<lambda>a b. getImportanceScore (exClock 0) b \<le> getImportanceScore (exClock 0) a)
         (selectTopStories exClock [exEarly, exLate] 8) \<and>
   \<not> sorted_wrt (\<lambda>a b. getImportanceScore (exClock 1) b \<le> getImportanceScore (exClock 1) a)
         (selectTopStories exClock [exEarly, exLate] 8)"
  by code_simp

text \<open>
  Claim C6, amended. For every input list, every \<^verbatim>\<open>maxCount\<close> and every clock, the list
  that \<^verbatim>\<open>selectTopStories\<close> returns is in the order of non-increasing recorded score, the
  recorded score of a candidate being the one that \<^verbatim>\<open>getImportanceScore\<close> computed for it
  at its own reading of the clock during the call; and it is a subsequence of the sorted
  candidates: the cap may skip candidates and never reorders the admitted ones. When the
  clock does not advance during the call, the list is in the order of non-increasing score
  of \<^verbatim>\<open>getImportanceScore\<close> at that instant.
\<close>

theorem selectTopStories_descending:
  "(\<exists>scs. selectTopStories clock clusters maxCount = map cluster scs
      \<and> subseq scs (rankedCandidates clock clusters)
      \<and> set scs \<subseteq> set (scoreAll clock 0 (filter isCandidate clusters))
      \<and> sorted_wrt (\<lambda>a b. score b \<le> score a) scs)
   \<and> subseq (selectTopStories clock clusters maxCount)
        (map cluster (rankedCandidates clock clusters))
   \<and> sorted_wrt (\<lambda>a b. getImportanceScore now b \<le> getImportanceScore now a)
        (selectTopStories (\<lambda>i. now) clusters maxCount)"
proof (intro conjI)
  from selectTopStories_picks [of clock clusters maxCount] obtain scs where
    sub: "subseq scs (rankedCandidates clock clusters)"
    and eq: "selectTopStories clock clusters maxCount = map cluster scs"
    by blast
  have mem: "set scs \<subseteq> set (scoreAll clock 0 (filter isCandidate clusters))"
    using sub by (auto dest: list_emb_set simp: set_rankedCandidates [symmetric])
  have ord: "sorted_wrt (\<lambda>a b. score b \<le> score a) scs"
    using sub rankedCandidates_recorded_descending by (rule sorted_wrt_subseq)
  show "\<exists>scs. selectTopStories clock clusters maxCount = map cluster scs
      \<and> subseq scs (rankedCandidates clock clusters)
      \<and> set scs \<subseteq> set (scoreAll clock 0 (filter isCandidate clusters))
      \<and> sorted_wrt (\<lambda>a b. score b \<le> score a) scs"
  proof (intro exI conjI)
    show "selectTopStories clock clusters maxCount = map cluster scs" by (rule eq)
    show "subseq scs (rankedCandidates clock clusters)" by (rule sub)
    show "set scs \<subseteq> set (scoreAll clock 0 (filter isCandidate clusters))" by (rule mem)
    show "sorted_wrt (\<lambda>a b. score b \<le> score a) scs" by (rule ord)
  qed
  show "subseq (selectTopStories clock clusters maxCount)
        (map cluster (rankedCandidates clock clusters))"
    by (rule selectTopStories_subseq)
  show "sorted_wrt (\<lambda>a b. getImportanceScore now b \<le> getImportanceScore now a)
        (selectTopStories (\<lambda>i. now) clusters maxCount)"
    unfolding selectTopStories_loop
    by (rule selectLoop_sorted_wrt) (simp add: rankedCandidates_descending)
qed

text \<open>
  With the clock at rest at 0 the output of \<open>exMixed\<close> is \<open>exAlert\<close> (337.5), \<open>exSoftware\<close>
  (80), \<open>exQuiet\<close> (30).
\<close>

theorem selectTopStories_descending_witness:
  "sorted_wrt (\<lambda>a b. getImportanceScore 0 b \<le> getImportanceScore 0 a)
     (selectTopStories (\<lambda>i. 0) exMixed 8) \<and>
   selectTopStories (\<lambda>i. 0) exMixed 8 = [exAlert, exSoftware, exQuiet] \<and>
   map (getImportanceScore 0) [exAlert, exSoftware, exQuiet] = [675 / 2, 80, 30]"
proof -
  have 1: "selectTopStories (\<lambda>i. 0) exMixed 8 = [exAlert, exSoftware, exQuiet]"
    by code_simp
  have 2: "map (getImportanceScore 0) [exAlert, exSoftware, exQuiet] = [675 / 2, 80, 30]"
    by code_simp
  from conjunct2 [OF conjunct2 [OF selectTopStories_descending [of "\<lambda>i. 0" exMixed 8 0]]] 1 2
  show ?thesis by (simp only: simp_thms)
qed

subsection \<open>The bound on the number of stories\<close>

text \<open>
  The loop tests \<^verbatim>\<open>selected.length >= maxCount\<close> at the end of its body. From a
  \<^verbatim>\<open>maxCount\<close> of 1 on, the output has at most \<^verbatim>\<open>maxCount\<close> elements. With a \<^verbatim>\<open>maxCount\<close>
  of 0 or less the first candidate is admitted before the first test, and the output is
  the best candidate alone, when there is one.
\<close>

lemma selectLoop_length:
  "int (length selected) < maxCount \<Longrightarrow>
   int (length (selectLoop maxCount xs selected counts)) \<le> maxCount"
proof (induction xs arbitrary: selected counts)
  case Nil
  then show ?case by simp
next
  case (Cons x xs)
  have 1: "int (length (selected @ [cluster x])) \<le> maxCount"
    using Cons.prems by simp
  show ?case
    using Cons.prems 1 Cons.IH
    by (auto simp add: Let_def simp del: length_append)
qed

lemma selectTopStories_length:
  "1 \<le> maxCount \<Longrightarrow> int (length (selectTopStories clock clusters maxCount)) \<le> maxCount"
  unfolding selectTopStories_loop by (rule selectLoop_length) simp

lemma selectTopStories_nonpositive:
  "maxCount \<le> 0 \<Longrightarrow>
   selectTopStories clock clusters maxCount
     = take 1 (map cluster (rankedCandidates clock clusters))"
  unfolding selectTopStories_loop
  by (cases "rankedCandidates clock clusters") (simp_all add: Let_def MAX_PER_SOURCE_def)

text \<open>
  Claim C3 says that \<^verbatim>\<open>selectTopStories\<close> returns the empty list for every \<^verbatim>\<open>maxCount\<close> of 0
  or less. On the one candidate \<open>exQuiet\<close> the source returns that candidate, for a
  \<^verbatim>\<open>maxCount\<close> of 0 and of -1.
\<close>

theorem selectTopStories_zero_maxCount:
  "isCandidate exQuiet \<and>
   selectTopStories (\<lambda>i. 0) [exQuiet] 0 = [exQuiet] \<and>
   selectTopStories (\<lambda>i. 0) [exQuiet] (- 1) = [exQuiet]"
  by code_simp

subsection \<open>The store: each step against the list functions\<close>

text \<open>
  Appending a cell and overwriting an array leave the clusters of the store as they are.
  On references that stand for clusters, each step on the store does what the step on
  lists does.
\<close>

lemma readCluster_append: "readCluster h r = Some c \<Longrightarrow> readCluster (h @ e) r = Some c"
  by (auto simp: readCluster_def nth_append split: if_splits)

lemma resolves_append: "resolves h r c \<Longrightarrow> resolves (h @ e) r c"
  by (simp add: resolves_def readCluster_append)

lemma readCluster_update:
  "readClusterArray h a = Some xs \<Longrightarrow> readCluster (h[a := ClusterArray ys]) r = readCluster h r"
  by (cases "r = a") (auto simp: readCluster_def readClusterArray_def split: if_splits cell.splits)

lemma resolves_update:
  "readClusterArray h a = Some xs \<Longrightarrow> resolves (h[a := ClusterArray ys]) = resolves h"
  by (intro ext) (simp add: resolves_def readCluster_update)

lemma resolvesScored_update:
  "readClusterArray h a = Some xs \<Longrightarrow> resolvesScored (h[a := ClusterArray ys]) = resolvesScored h"
  by (intro ext) (simp add: resolvesScored_def readCluster_update)

lemma readClusterArray_update:
  "readClusterArray h a = Some xs \<Longrightarrow> readClusterArray (h[a := ClusterArray ys]) a = Some ys"
  by (auto simp: readClusterArray_def split: if_splits)

lemma filter_h_refines:
  "list_all2 (resolves h) rs cs \<Longrightarrow>
   \<exists>ks. filter_h h rs = Some ks \<and> list_all2 (resolves h) ks (filter isCandidate cs)
     \<and> set ks \<subseteq> set rs"
proof (induction rs arbitrary: cs)
  case Nil
  then show ?case by simp
next
  case (Cons r rs)
  then obtain c cs' where cs: "cs = c # cs'" and r: "resolves h r c"
    and rest: "list_all2 (resolves h) rs cs'"
    by (auto simp: list_all2_Cons1)
  from Cons.IH [OF rest] obtain ks where ks: "filter_h h rs = Some ks"
    "list_all2 (resolves h) ks (filter isCandidate cs')" "set ks \<subseteq> set rs"
    by blast
  have rc: "readCluster h r = Some c"
    using r by (simp add: resolves_def)
  show ?case
  proof (cases "isCandidate c")
    case True
    have "filter_h h (r # rs) = Some (r # ks)"
      using True rc ks(1) by simp
    moreover have "list_all2 (resolves h) (r # ks) (filter isCandidate cs)"
      using True r ks(2) cs by simp
    moreover have "set (r # ks) \<subseteq> set (r # rs)"
      using ks(3) by auto
    ultimately show ?thesis by blast
  next
    case False
    have "filter_h h (r # rs) = Some ks"
      using False rc ks(1) by simp
    moreover have "list_all2 (resolves h) ks (filter isCandidate cs)"
      using False ks(2) cs by simp
    moreover have "set ks \<subseteq> set (r # rs)"
      using ks(3) by auto
    ultimately show ?thesis by blast
  qed
qed

lemma map_h_refines:
  "list_all2 (resolves h) ks cs \<Longrightarrow>
   \<exists>ps. map_h clock i ks h = Some (ps, h)
     \<and> list_all2 (resolvesScored h) ps (scoreAll clock i cs)
     \<and> map fst ps = ks"
proof (induction ks arbitrary: cs i)
  case Nil
  then show ?case by simp
next
  case (Cons r rs)
  then obtain c cs' where cs: "cs = c # cs'" and r: "resolves h r c"
    and rest: "list_all2 (resolves h) rs cs'"
    by (auto simp: list_all2_Cons1)
  from Cons.IH [OF rest, of "Suc i"] obtain ps where
    ps: "map_h clock (Suc i) rs h = Some (ps, h)"
    "list_all2 (resolvesScored h) ps (scoreAll clock (Suc i) cs')"
    "map fst ps = rs"
    by blast
  have rc: "readCluster h r = Some c"
    using r by (simp add: resolves_def)
  let ?p = "(r, getImportanceScore (clock i) c)"
  have 1: "map_h clock i (r # rs) h = Some (?p # ps, h)"
    using rc ps(1) by (simp add: getImportanceScore_h_def)
  have 2: "list_all2 (resolvesScored h) (?p # ps) (scoreAll clock i cs)"
    using ps(2) rc cs by (simp add: resolvesScored_def)
  have 3: "map fst (?p # ps) = r # rs"
    using ps(3) by simp
  show ?case
  proof (intro exI conjI)
    show "map_h clock i (r # rs) h = Some (?p # ps, h)" by (rule 1)
    show "list_all2 (resolvesScored h) (?p # ps) (scoreAll clock i cs)" by (rule 2)
    show "map fst (?p # ps) = r # rs" by (rule 3)
  qed
qed

lemma insort_key_related:
  assumes "list_all2 R xs ys" and "R x y"
    and "\<And>a b. R a b \<Longrightarrow> kx a = ky b"
  shows "list_all2 R (insort_key kx x xs) (insort_key ky y ys)"
  using assms(1)
proof (induction rule: list_all2_induct)
  case Nil
  then show ?case using assms(2) by simp
next
  case (Cons a as b bs)
  have "kx x = ky y" "kx a = ky b"
    using assms(2,3) Cons.hyps(1) by auto
  then show ?case
    using Cons assms(2) by simp
qed

lemma sort_key_related:
  assumes "list_all2 R xs ys"
    and "\<And>a b. R a b \<Longrightarrow> kx a = ky b"
  shows "list_all2 R (sort_key kx xs) (sort_key ky ys)"
  using assms(1)
proof (induction rule: list_all2_induct)
  case Nil
  then show ?case by simp
next
  case (Cons a as b bs)
  then show ?case
    using insort_key_related [OF Cons.IH Cons.hyps(1) assms(2)] by (simp add: sort_key_def)
qed


lemma selectLoop_h_refines:
  assumes "list_all2 (resolvesScored h) ps scs"
    and "readClusterArray h sel = Some xs"
    and "list_all2 (resolves h) xs selcs"
  shows "\<exists>xs'. selectLoop_h maxCount ps sel counts h = Some (h[sel := ClusterArray xs'])
      \<and> list_all2 (resolves h) xs' (selectLoop maxCount scs selcs counts)
      \<and> set xs' \<subseteq> set xs \<union> fst ` set ps"
  using assms
proof (induction ps arbitrary: scs h xs selcs counts)
  case Nil
  then have scs: "scs = []" by simp
  have sel: "sel < length h" "h ! sel = ClusterArray xs"
    using Nil.prems(2) by (auto simp: readClusterArray_def split: if_splits cell.splits)
  have same: "h[sel := ClusterArray xs] = h"
    using sel by (metis list_update_id)
  show ?case
  proof (intro exI conjI)
    show "selectLoop_h maxCount [] sel counts h = Some (h[sel := ClusterArray xs])"
      by (simp add: same)
    show "list_all2 (resolves h) xs (selectLoop maxCount scs selcs counts)"
      using Nil.prems(3) scs by simp
    show "set xs \<subseteq> set xs \<union> fst ` set []" by auto
  qed
next
  case (Cons p rest)
  obtain r s where p: "p = (r, s)" by (cases p)
  from Cons.prems(1) obtain sc scs' where scs: "scs = sc # scs'"
    and psc: "resolvesScored h p sc" and rest: "list_all2 (resolvesScored h) rest scs'"
    by (auto simp: list_all2_Cons1)
  have rc: "readCluster h r = Some (cluster sc)"
    using psc p by (simp add: resolvesScored_def)
  have len: "length xs = length selcs"
    using Cons.prems(3) by (rule list_all2_lengthD)
  let ?src = "primarySource (cluster sc)"
  let ?count = "case counts ?src of None \<Rightarrow> 0 | Some n \<Rightarrow> n"
  show ?case
  proof (cases "?count < MAX_PER_SOURCE")
    case True
    let ?xs = "xs @ [r]"
    let ?h = "h[sel := ClusterArray ?xs]"
    let ?selcs = "selcs @ [cluster sc]"
    let ?counts = "counts(?src \<mapsto> ?count + 1)"
    have push: "push_h sel r h = Some ?h"
      using Cons.prems(2) by (simp add: push_h_def)
    have rd: "readClusterArray ?h sel = Some ?xs"
      using Cons.prems(2) by (rule readClusterArray_update)
    have "list_all2 (resolves h) [r] [cluster sc]"
      using rc by (simp add: resolves_def)
    with Cons.prems(3) have sel': "list_all2 (resolves h) ?xs ?selcs"
      by (rule list_all2_appendI)
    show ?thesis
    proof (cases "maxCount \<le> int (length ?xs)")
      case stop: True
      have stop': "maxCount \<le> int (length ?selcs)"
        using stop len by simp
      have 1: "selectLoop_h maxCount (p # rest) sel counts h = Some ?h"
        using True push rd rc stop p by (simp add: Let_def)
      have 2: "selectLoop maxCount scs selcs counts = ?selcs"
        using True stop' scs by (simp add: Let_def)
      show ?thesis
      proof (intro exI conjI)
        show "selectLoop_h maxCount (p # rest) sel counts h = Some ?h" by (rule 1)
        show "list_all2 (resolves h) ?xs (selectLoop maxCount scs selcs counts)"
          unfolding 2 by (rule sel')
        show "set ?xs \<subseteq> set xs \<union> fst ` set (p # rest)"
          using p by auto
      qed
    next
      case go: False
      have go': "\<not> maxCount \<le> int (length ?selcs)"
        using go len by simp
      have 1: "selectLoop_h maxCount (p # rest) sel counts h
          = selectLoop_h maxCount rest sel ?counts ?h"
        using True push rd rc go p by (simp add: Let_def)
      have 2: "selectLoop maxCount scs selcs counts = selectLoop maxCount scs' ?selcs ?counts"
        using True go' scs by (simp add: Let_def)
      have r1: "list_all2 (resolvesScored ?h) rest scs'"
        using rest by (simp add: resolvesScored_update [OF Cons.prems(2)])
      have r3: "list_all2 (resolves ?h) ?xs ?selcs"
        using sel' by (simp add: resolves_update [OF Cons.prems(2)])
      from Cons.IH [OF r1 rd r3, of ?counts] obtain xs' where
        a: "selectLoop_h maxCount rest sel ?counts ?h = Some (?h[sel := ClusterArray xs'])"
        and b: "list_all2 (resolves ?h) xs' (selectLoop maxCount scs' ?selcs ?counts)"
        and c: "set xs' \<subseteq> set ?xs \<union> fst ` set rest"
        by blast
      show ?thesis
      proof (intro exI conjI)
        show "selectLoop_h maxCount (p # rest) sel counts h = Some (h[sel := ClusterArray xs'])"
          unfolding 1 a by simp
        show "list_all2 (resolves h) xs' (selectLoop maxCount scs selcs counts)"
          unfolding 2 using b by (simp add: resolves_update [OF Cons.prems(2)])
        show "set xs' \<subseteq> set xs \<union> fst ` set (p # rest)"
          using c p by auto
      qed
    qed
  next
    case False
    show ?thesis
    proof (cases "maxCount \<le> int (length xs)")
      case stop: True
      have stop': "maxCount \<le> int (length selcs)"
        using stop len by simp
      have sel: "sel < length h" "h ! sel = ClusterArray xs"
        using Cons.prems(2) by (auto simp: readClusterArray_def split: if_splits cell.splits)
      have same: "h[sel := ClusterArray xs] = h"
        using sel by (metis list_update_id)
      have 1: "selectLoop_h maxCount (p # rest) sel counts h = Some h"
        using False Cons.prems(2) rc stop p by (simp add: Let_def)
      have 2: "selectLoop maxCount scs selcs counts = selcs"
        using False stop' scs by (simp add: Let_def)
      show ?thesis
      proof (intro exI conjI)
        show "selectLoop_h maxCount (p # rest) sel counts h = Some (h[sel := ClusterArray xs])"
          unfolding 1 same by (rule refl)
        show "list_all2 (resolves h) xs (selectLoop maxCount scs selcs counts)"
          unfolding 2 by (rule Cons.prems(3))
        show "set xs \<subseteq> set xs \<union> fst ` set (p # rest)" by auto
      qed
    next
      case go: False
      have go': "\<not> maxCount \<le> int (length selcs)"
        using go len by simp
      have 1: "selectLoop_h maxCount (p # rest) sel counts h
          = selectLoop_h maxCount rest sel counts h"
        using False Cons.prems(2) rc go p by (simp add: Let_def)
      have 2: "selectLoop maxCount scs selcs counts = selectLoop maxCount scs' selcs counts"
        using False go' scs by (simp add: Let_def)
      from Cons.IH [OF rest Cons.prems(2) Cons.prems(3), of counts] obtain xs' where
        a: "selectLoop_h maxCount rest sel counts h = Some (h[sel := ClusterArray xs'])"
        and b: "list_all2 (resolves h) xs' (selectLoop maxCount scs' selcs counts)"
        and c: "set xs' \<subseteq> set xs \<union> fst ` set rest"
        by blast
      show ?thesis
      proof (intro exI conjI)
        show "selectLoop_h maxCount (p # rest) sel counts h = Some (h[sel := ClusterArray xs'])"
          unfolding 1 by (rule a)
        show "list_all2 (resolves h) xs' (selectLoop maxCount scs selcs counts)"
          unfolding 2 by (rule b)
        show "set xs' \<subseteq> set xs \<union> fst ` set (p # rest)"
          using c by auto
      qed
    qed
  qed
qed

lemma readClusterArray_alloc:
  "readClusterArray (h @ [ClusterArray xs]) (length h) = Some xs"
  by (simp add: readClusterArray_def)

lemma readScoredArray_alloc:
  "readScoredArray (h @ [ScoredArray ps]) (length h) = Some ps"
  by (simp add: readScoredArray_def)

lemma readScoredArray_append:
  "readScoredArray h r = Some ps \<Longrightarrow> readScoredArray (h @ e) r = Some ps"
  by (auto simp: readScoredArray_def nth_append split: if_splits)

lemma resolvesScored_append: "resolvesScored h p sc \<Longrightarrow> resolvesScored (h @ e) p sc"
  by (simp add: resolvesScored_def readCluster_append)

lemma sort_h_alloc:
  "sort_h (length h) (h @ [ScoredArray ps])
     = Some (h @ [ScoredArray (sort_key (\<lambda>p. - snd p) ps)])"
  by (simp add: sort_h_def readScoredArray_def)

lemma readCluster_alloc_array:
  "readCluster (h @ [ClusterArray xs]) r = readCluster h r"
  "readCluster (h @ [ScoredArray ps]) r = readCluster h r"
  by (auto simp: readCluster_def nth_append less_Suc_eq)

lemma resolves_alloc3:
  "resolves (h @ [ClusterArray ks, ScoredArray ps, ClusterArray xs]) r c = resolves h r c"
proof -
  have "readCluster (((h @ [ClusterArray ks]) @ [ScoredArray ps]) @ [ClusterArray xs]) r
      = readCluster h r"
    by (simp only: readCluster_alloc_array)
  then show ?thesis by (simp add: resolves_def)
qed

lemma selectTopStories_h_refines:
  assumes arr: "readClusterArray h a = Some rs"
    and res: "list_all2 (resolves h) rs cs"
  shows "\<exists>ks ps out.
      selectTopStories_h clock a maxCount h
        = Some (length h + 2, h @ [ClusterArray ks, ScoredArray ps, ClusterArray out])
      \<and> list_all2 (resolves h) out (selectTopStories clock cs maxCount)
      \<and> set out \<subseteq> set rs"
proof -
  from filter_h_refines [OF res] obtain ks where ks: "filter_h h rs = Some ks"
    "list_all2 (resolves h) ks (filter isCandidate cs)" "set ks \<subseteq> set rs"
    by blast
  let ?h1 = "h @ [ClusterArray ks]"
  have ks1: "list_all2 (resolves ?h1) ks (filter isCandidate cs)"
    using ks(2) by (rule list_all2_mono) (rule resolves_append)
  from map_h_refines [OF ks1, of clock 0] obtain ps where
    ps: "map_h clock 0 ks ?h1 = Some (ps, ?h1)"
    "list_all2 (resolvesScored ?h1) ps (scoreAll clock 0 (filter isCandidate cs))"
    "map fst ps = ks"
    by blast
  let ?sorted = "sort_key (\<lambda>p. - snd p) ps"
  let ?h3 = "h @ [ClusterArray ks, ScoredArray ps]"
  let ?h4 = "h @ [ClusterArray ks, ScoredArray ?sorted]"
  let ?h5 = "h @ [ClusterArray ks, ScoredArray ?sorted, ClusterArray []]"
  have sort: "sort_h (Suc (length h)) ?h3 = Some ?h4"
    using sort_h_alloc [of ?h1 ps] by simp
  have rd5: "readScoredArray ?h5 (Suc (length h)) = Some ?sorted"
    using readScoredArray_append [OF readScoredArray_alloc [of ?h1 ?sorted], of "[ClusterArray []]"]
    by simp
  have sorted1: "list_all2 (resolvesScored ?h1) ?sorted (rankedCandidates clock cs)"
    unfolding rankedCandidates_def
    by (rule sort_key_related [OF ps(2)]) (simp add: resolvesScored_def)
  have sorted5: "list_all2 (resolvesScored ?h5) ?sorted (rankedCandidates clock cs)"
    using sorted1
  proof (rule list_all2_mono)
    fix p sc
    assume "resolvesScored ?h1 p sc"
    then have "resolvesScored (?h1 @ [ScoredArray ?sorted, ClusterArray []]) p sc"
      by (rule resolvesScored_append)
    then show "resolvesScored ?h5 p sc" by simp
  qed
  have sel5: "readClusterArray ?h5 (Suc (Suc (length h))) = Some []"
    using readClusterArray_alloc [of ?h4 "[]"] by simp
  have nil5: "list_all2 (resolves ?h5) [] []"
    by simp
  from selectLoop_h_refines [OF sorted5 sel5 nil5, of maxCount Map.empty] obtain out where
    out: "selectLoop_h maxCount ?sorted (Suc (Suc (length h))) Map.empty ?h5
            = Some (?h5[Suc (Suc (length h)) := ClusterArray out])"
      "list_all2 (resolves ?h5) out
         (selectLoop maxCount (rankedCandidates clock cs) [] Map.empty)"
      "set out \<subseteq> set [] \<union> fst ` set ?sorted"
    by blast
  let ?h6 = "h @ [ClusterArray ks, ScoredArray ?sorted, ClusterArray out]"
  have h6: "?h5[Suc (Suc (length h)) := ClusterArray out] = ?h6"
    using list_update_length [of ?h4 "ClusterArray []" "[]" "ClusterArray out"] by simp
  have call: "selectTopStories_h clock a maxCount h = Some (length h + 2, ?h6)"
    using arr ks(1) ps(1) sort rd5 out(1) h6 readClusterArray_alloc [of h ks]
    by (simp add: selectTopStories_h_def alloc_def)
  have "set out \<subseteq> set ks"
    using out(3) ps(3) by (metis Un_empty_left empty_set set_map set_sort)
  with ks(3) have sub: "set out \<subseteq> set rs" by simp
  have pure: "list_all2 (resolves h) out (selectTopStories clock cs maxCount)"
    unfolding selectTopStories_loop
    using out(2) by (rule list_all2_mono) (simp add: resolves_alloc3)
  show ?thesis
  proof (intro exI conjI)
    show "selectTopStories_h clock a maxCount h = Some (length h + 2, ?h6)" by (rule call)
    show "list_all2 (resolves h) out (selectTopStories clock cs maxCount)" by (rule pure)
    show "set out \<subseteq> set rs" by (rule sub)
  qed
qed

subsection \<open>The input is left as it was\<close>

text \<open>
  Claim C9. \<^verbatim>\<open>getImportanceScore\<close> and \<^verbatim>\<open>selectTopStories\<close> never mutate their input. For a
  store \<open>h\<close> in which \<open>a\<close> is the input array, of the references \<open>rs\<close> to the clusters
  \<open>cs\<close>: \<^verbatim>\<open>getImportanceScore\<close> on any of these clusters returns its score and the store
  \<open>h\<close>; \<^verbatim>\<open>selectTopStories\<close> returns, whatever the clock reads, and the store after the
  call is \<open>h\<close> followed by three new arrays (the candidates, the sorted \<^verbatim>\<open>scored\<close>, and
  \<^verbatim>\<open>selected\<close>), so every cell of \<open>h\<close>, the input array and each of its clusters among
  them, is unchanged; the result is the last of the new arrays; its elements are
  references of the input array; and the clusters they stand for are the list that
  \<open>selectTopStories\<close> computes from \<open>cs\<close>.
\<close>

theorem selectTopStories_h_frame:
  assumes "readClusterArray h a = Some rs" and "list_all2 (resolves h) rs cs"
  shows "list_all2 (\<lambda>r c. getImportanceScore_h now r h = Some (getImportanceScore now c, h))
           rs cs
    \<and> (\<exists>r h' ks ps out.
          selectTopStories_h clock a maxCount h = Some (r, h')
        \<and> h' = h @ [ClusterArray ks, ScoredArray ps, ClusterArray out]
        \<and> take (length h) h' = h
        \<and> readClusterArray h' a = Some rs
        \<and> list_all2 (resolves h') rs cs
        \<and> r = length h + 2
        \<and> readClusterArray h' r = Some out
        \<and> set out \<subseteq> set rs
        \<and> list_all2 (resolves h') out (selectTopStories clock cs maxCount))"
proof
  show "list_all2 (\<lambda>r c. getImportanceScore_h now r h = Some (getImportanceScore now c, h))
           rs cs"
    using assms(2)
    by (rule list_all2_mono) (simp add: resolves_def getImportanceScore_h_def)
  from selectTopStories_h_refines [OF assms, of clock maxCount] obtain ks ps out where
    call: "selectTopStories_h clock a maxCount h
        = Some (length h + 2, h @ [ClusterArray ks, ScoredArray ps, ClusterArray out])"
    and pure: "list_all2 (resolves h) out (selectTopStories clock cs maxCount)"
    and sub: "set out \<subseteq> set rs"
    by blast
  let ?h' = "h @ [ClusterArray ks, ScoredArray ps, ClusterArray out]"
  have a: "a < length h" "h ! a = ClusterArray rs"
    using assms(1) by (auto simp: readClusterArray_def split: if_splits cell.splits)
  have 1: "take (length h) ?h' = h"
    by simp
  have 2: "readClusterArray ?h' a = Some rs"
    using a by (simp add: readClusterArray_def nth_append)
  have 3: "list_all2 (resolves ?h') rs cs"
    using assms(2) by (rule list_all2_mono) (rule resolves_append)
  have 4: "readClusterArray ?h' (length h + 2) = Some out"
    by (simp add: readClusterArray_def nth_append)
  have 5: "list_all2 (resolves ?h') out (selectTopStories clock cs maxCount)"
    using pure by (rule list_all2_mono) (rule resolves_append)
  show "\<exists>r h' ks ps out.
          selectTopStories_h clock a maxCount h = Some (r, h')
        \<and> h' = h @ [ClusterArray ks, ScoredArray ps, ClusterArray out]
        \<and> take (length h) h' = h
        \<and> readClusterArray h' a = Some rs
        \<and> list_all2 (resolves h') rs cs
        \<and> r = length h + 2
        \<and> readClusterArray h' r = Some out
        \<and> set out \<subseteq> set rs
        \<and> list_all2 (resolves h') out (selectTopStories clock cs maxCount)"
  proof (intro exI conjI)
    show "selectTopStories_h clock a maxCount h = Some (length h + 2, ?h')" by (rule call)
    show "?h' = h @ [ClusterArray ks, ScoredArray ps, ClusterArray out]" by (rule refl)
    show "take (length h) ?h' = h" by (rule 1)
    show "readClusterArray ?h' a = Some rs" by (rule 2)
    show "list_all2 (resolves ?h') rs cs" by (rule 3)
    show "length h + 2 = length h + 2" by (rule refl)
    show "readClusterArray ?h' (length h + 2) = Some out" by (rule 4)
    show "set out \<subseteq> set rs" by (rule sub)
    show "list_all2 (resolves ?h') out (selectTopStories clock cs maxCount)" by (rule 5)
  qed
qed

text \<open>
  In \<open>exHeap\<close> the array at 2 holds the clusters of \<open>exMixed\<close>. The call returns the new
  array at 7 with the references 3, 4, 0 (\<open>exAlert\<close>, \<open>exSoftware\<close>, \<open>exQuiet\<close>), and the
  five cells of \<open>exHeap\<close> are the first five of the store after the call.
\<close>

theorem selectTopStories_h_frame_witness:
  "readClusterArray exHeap 2 = Some [0, 1, 3, 4] \<and>
   list_all2 (resolves exHeap) [0, 1, 3, 4] exMixed \<and>
   selectTopStories_h (\<lambda>i. 0) 2 8 exHeap
     = Some (7, exHeap @ [ClusterArray [0, 3, 4],
                          ScoredArray [(3, 675 / 2), (4, 80), (0, 30)],
                          ClusterArray [3, 4, 0]]) \<and>
   getImportanceScore_h 0 3 exHeap = Some (675 / 2, exHeap)"
proof -
  have 1: "readClusterArray exHeap 2 = Some [0, 1, 3, 4]"
    by code_simp
  have 2: "list_all2 (resolves exHeap) [0, 1, 3, 4] exMixed"
    by code_simp
  have 3: "getImportanceScore 0 exAlert = 675 / 2"
    by code_simp
  have 5: "selectTopStories_h (\<lambda>i. 0) 2 8 exHeap
     = Some (7, exHeap @ [ClusterArray [0, 3, 4],
                          ScoredArray [(3, 675 / 2), (4, 80), (0, 30)],
                          ClusterArray [3, 4, 0]])"
    by code_simp
  from selectTopStories_h_frame [OF 1 2, of 0 "\<lambda>i. 0" 8]
  have "getImportanceScore_h 0 3 exHeap = Some (getImportanceScore 0 exAlert, exHeap)"
    by (simp add: exMixed_def)
  with 1 2 3 5 show ?thesis
    by (simp only: simp_thms)
qed

end
